theory Spec2Isabelle
  imports Complex_Main
begin

section \<open>Dates\<close>

text \<open>
  A \<open>Date\<close> is a point in time with millisecond resolution. It is written here as the
  number of milliseconds that the local clock shows since Thursday 1970-01-01 00:00 local
  time, for a time zone whose offset from UTC never changes (no daylight-saving
  transitions), so that every calendar day has \<open>msPerDay\<close> milliseconds. Invalid dates
  and the finite range of the platform's time value are not represented.
\<close>

type_synonym Date = int

definition msPerDay :: int where
  "msPerDay = 86400000"

text \<open>
  Modelled from the spec: the component imports its date functions from the library
  date-fns, which is not part of the sources. The specification names what they are used
  for ("week start = Monday", "in whole days", "7 consecutive calendar days"); where it
  says no more, the definitions follow the library's documented behaviour, and say so.

  \<open>getDay\<close> is the platform's day of the week, 0 for Sunday up to 6 for Saturday; day 0 of
  the time line is a Thursday.
\<close>

definition getDay :: "Date \<Rightarrow> int" where
  "getDay date = (date div msPerDay + 4) mod 7"

text \<open>
  Modelled from the spec: the library's \<open>startOfWeek\<close> (not part of the sources), which
  aligns a date to the start of its week. As the library does, it steps back to the most
  recent day whose weekday is \<open>weekStartsOn\<close> and resets the time of day to midnight. The
  component always passes \<open>weekStartsOn = 1\<close> (week start = Monday).
\<close>

definition startOfWeek :: "Date \<Rightarrow> int \<Rightarrow> Date" where
  "startOfWeek date weekStartsOn =
     (let day = getDay date;
          diff = (if day < weekStartsOn then 7 else 0) + day - weekStartsOn;
          shifted = date - diff * msPerDay
      in (shifted div msPerDay) * msPerDay)"

text \<open>
  Modelled from the spec: the library's \<open>addDays\<close> (not part of the sources), which moves
  a date by a whole number of calendar days and keeps its time of day.
\<close>

definition addDays :: "Date \<Rightarrow> int \<Rightarrow> Date" where
  "addDays date amount = date + amount * msPerDay"

text \<open>
  Modelled from the spec: the library's \<open>differenceInDays\<close> (not part of the sources),
  the difference of two dates in whole days. The library counts full 24-hour periods:
  it takes the difference of the calendar days, moves the later date back by that many
  days and gives up one day when the last one is not complete. The sign is that of
  \<open>laterDate - earlierDate\<close>, so the result may be negative.
\<close>

definition compareLocalAsc :: "Date \<Rightarrow> Date \<Rightarrow> int" where
  "compareLocalAsc dateLeft dateRight =
     (if dateLeft < dateRight then - 1 else if dateLeft > dateRight then 1 else 0)"

definition differenceInCalendarDays :: "Date \<Rightarrow> Date \<Rightarrow> int" where
  "differenceInCalendarDays laterDate earlierDate =
     laterDate div msPerDay - earlierDate div msPerDay"

definition differenceInDays :: "Date \<Rightarrow> Date \<Rightarrow> int" where
  "differenceInDays laterDate earlierDate =
     (let sign = compareLocalAsc laterDate earlierDate;
          difference = \<bar>differenceInCalendarDays laterDate earlierDate\<bar>;
          moved = addDays laterDate (- (sign * difference));
          isLastDayNotFull = (if compareLocalAsc moved earlierDate = - sign then 1 else 0)
      in sign * (difference - isLastDayNotFull))"

text \<open>
  Modelled from the spec: the library's \<open>isWithinInterval\<close> (not part of the sources).
  The specification says "if today falls within it"; the library documents the test as
  including both the start and the end of the interval, and compares the time values with
  \<open>\<le>\<close> on both sides, after putting the two ends in order.
\<close>

definition isWithinInterval :: "Date \<Rightarrow> Date \<Rightarrow> Date \<Rightarrow> bool" where
  "isWithinInterval date intervalStart intervalEnd =
     (let startTime = min intervalStart intervalEnd;
          endTime = max intervalStart intervalEnd
      in startTime \<le> date \<and> date \<le> endTime)"


section \<open>The timeline component\<close>

text \<open>
  Modelled from the spec: the type \<open>TimelineTask\<close> is declared outside the sources. A task
  has a unique identifier, a name, a start date and an end date. The specification asks the
  caller for \<open>startDate \<le> endDate\<close>; the component does not check it, and the record does
  not impose it.
\<close>

record TimelineTask =
  taskId :: string
  taskName :: string
  startDate :: Date
  endDate :: Date

text \<open>\<open>clamp\<close> of the component, used on day indices and on percentages.\<close>

definition clamp :: "'a::linorder \<Rightarrow> 'a \<Rightarrow> 'a \<Rightarrow> 'a" where
  "clamp n mn mx = max mn (min mx n)"

text \<open>
  The values derived on every render. The component's only state is \<open>rangeStart\<close>, a
  date or null, here \<open>Date option\<close>. The definitions below are what the component computes
  after its early return for the empty task list, so they read \<open>tasks ! 0\<close> only for a
  list that has a first element.
\<close>

definition minDate :: "TimelineTask list \<Rightarrow> Date" where
  "minDate tasks =
     fold (\<lambda>t acc. if startDate t < acc then startDate t else acc) tasks (startDate (tasks ! 0))"

definition maxDate :: "TimelineTask list \<Rightarrow> Date" where
  "maxDate tasks =
     fold (\<lambda>t acc. if endDate t > acc then endDate t else acc) tasks (endDate (tasks ! 0))"

definition minWeekStart :: "TimelineTask list \<Rightarrow> Date" where
  "minWeekStart tasks = startOfWeek (minDate tasks) 1"

definition maxWeekStart :: "TimelineTask list \<Rightarrow> Date" where
  "maxWeekStart tasks = startOfWeek (maxDate tasks) 1"

definition effectiveRangeStart :: "TimelineTask list \<Rightarrow> Date option \<Rightarrow> Date" where
  "effectiveRangeStart tasks rangeStart =
     (case rangeStart of None \<Rightarrow> minWeekStart tasks | Some d \<Rightarrow> d)"

definition currentWeekStart :: "TimelineTask list \<Rightarrow> Date option \<Rightarrow> Date" where
  "currentWeekStart tasks rangeStart = startOfWeek (effectiveRangeStart tasks rangeStart) 1"

definition clampToRange :: "TimelineTask list \<Rightarrow> Date \<Rightarrow> Date" where
  "clampToRange tasks date =
     (if date < minWeekStart tasks then minWeekStart tasks
      else if date > maxWeekStart tasks then maxWeekStart tasks
      else date)"

definition days :: "TimelineTask list \<Rightarrow> Date option \<Rightarrow> Date list" where
  "days tasks rangeStart =
     (let start = startOfWeek (effectiveRangeStart tasks rangeStart) 1
      in map (\<lambda>i. addDays start (int i)) [0..<7])"

text \<open>\<open>today\<close> is the clock reading taken by the render, a parameter here.\<close>

definition todayInRange :: "TimelineTask list \<Rightarrow> Date option \<Rightarrow> Date \<Rightarrow> bool" where
  "todayInRange tasks rangeStart today =
     (let ds = days tasks rangeStart
      in isWithinInterval today (ds ! 0) (addDays (ds ! (length ds - 1)) 1))"

definition todayIndex :: "TimelineTask list \<Rightarrow> Date option \<Rightarrow> Date \<Rightarrow> int" where
  "todayIndex tasks rangeStart today =
     (let ds = days tasks rangeStart
      in if todayInRange tasks rangeStart today
         then clamp (differenceInDays today (ds ! 0)) 0 (int (length ds) - 1)
         else int (length ds) div 2)"

text \<open>
  The three handlers. \<open>handlePrevious\<close> and \<open>handleNext\<close> are state updaters: they
  receive the stored anchor \<open>prev\<close> and return the new one.
\<close>

definition handlePrevious :: "TimelineTask list \<Rightarrow> Date option \<Rightarrow> Date option" where
  "handlePrevious tasks prev =
     (let base = (case prev of None \<Rightarrow> minWeekStart tasks | Some d \<Rightarrow> d);
          nextWeek = addDays base (- 7)
      in Some (clampToRange tasks nextWeek))"

definition handleNext :: "TimelineTask list \<Rightarrow> Date option \<Rightarrow> Date option" where
  "handleNext tasks prev =
     (let base = (case prev of None \<Rightarrow> minWeekStart tasks | Some d \<Rightarrow> d);
          nextWeek = addDays base 7
      in Some (clampToRange tasks nextWeek))"

definition handleToday :: "Date \<Rightarrow> Date option" where
  "handleToday today = (let base = startOfWeek today 1 in Some base)"

definition rangeStartDate :: "TimelineTask list \<Rightarrow> Date option \<Rightarrow> Date" where
  "rangeStartDate tasks rangeStart = days tasks rangeStart ! 0"

definition rangeEndDate :: "TimelineTask list \<Rightarrow> Date option \<Rightarrow> Date" where
  "rangeEndDate tasks rangeStart =
     (let ds = days tasks rangeStart in addDays (ds ! (length ds - 1)) 1)"

definition hasTasksInRange :: "TimelineTask list \<Rightarrow> Date option \<Rightarrow> bool" where
  "hasTasksInRange tasks rangeStart =
     list_ex (\<lambda>t. startDate t < rangeEndDate tasks rangeStart
                 \<and> endDate t \<ge> rangeStartDate tasks rangeStart) tasks"

definition canGoPrevious :: "TimelineTask list \<Rightarrow> Date option \<Rightarrow> bool" where
  "canGoPrevious tasks rangeStart = (currentWeekStart tasks rangeStart > minWeekStart tasks)"

definition canGoNext :: "TimelineTask list \<Rightarrow> Date option \<Rightarrow> bool" where
  "canGoNext tasks rangeStart = (currentWeekStart tasks rangeStart < maxWeekStart tasks)"

text \<open>
  The layout of one task's bar: the four values computed in the body of the row loop.
  Percentages are exact rationals; the rounding of the platform's floating-point numbers
  is not represented.
\<close>

record Bar =
  leftPct :: rat
  rightPct :: rat
  minWidthPct :: rat
  widthPct :: rat

definition taskBar :: "Date list \<Rightarrow> TimelineTask \<Rightarrow> Bar" where
  "taskBar ds t =
     (let startOffset = differenceInDays (startDate t) (ds ! 0);
          endOffset = differenceInDays (endDate t) (ds ! 0);
          totalDays = int (length ds);
          left = clamp ((of_int startOffset / of_int totalDays) * 100) 0 100;
          right = clamp ((of_int endOffset / of_int totalDays) * 100) 0 100;
          minWidth = (1 / of_int totalDays) * 100;
          width = clamp (right - left + minWidth) minWidth 100
      in \<lparr>leftPct = left, rightPct = right, minWidthPct = minWidth, widthPct = width\<rparr>)"

text \<open>
  What a render produces. Styling, icons and the month label are left out; the record
  keeps the parts that depend on the tasks, the anchor and the clock: the day columns,
  the two navigation buttons' \<open>disabled\<close> flags, the position of the today marker, the
  overlay for a week without tasks, and one row per task with the bar's \<open>left\<close> and
  \<open>width\<close>.
\<close>

record TaskRow =
  rowName :: string
  rowLeft :: rat
  rowWidth :: rat

record Grid =
  dayColumns :: "Date list"
  previousDisabled :: bool
  nextDisabled :: bool
  markerLeft :: rat
  emptyWeekOverlay :: bool
  taskRows :: "TaskRow list"

datatype View = NoTasksScheduled | Timeline Grid

definition TimelineGantt :: "TimelineTask list \<Rightarrow> Date option \<Rightarrow> Date \<Rightarrow> View" where
  "TimelineGantt tasks rangeStart today =
     (if length tasks = 0 then NoTasksScheduled
      else
        let ds = days tasks rangeStart
        in Timeline
             \<lparr>dayColumns = ds,
              previousDisabled = (\<not> canGoPrevious tasks rangeStart),
              nextDisabled = (\<not> canGoNext tasks rangeStart),
              markerLeft =
                (of_int (todayIndex tasks rangeStart today) / of_int (int (length ds))) * 100,
              emptyWeekOverlay = (\<not> hasTasksInRange tasks rangeStart),
              taskRows =
                map (\<lambda>t. let b = taskBar ds t
                          in \<lparr>rowName = taskName t, rowLeft = leftPct b, rowWidth = widthPct b\<rparr>)
                    tasks\<rparr>)"

text \<open>
  The user's actions and the states they reach. The anchor starts as null. \<open>Today\<close>
  carries the clock reading of the render whose button was pressed. \<open>run\<close> applies the
  handlers whether or not the Previous and Next buttons are enabled; a disabled button
  dispatches nothing, so the states reached through the rendered buttons are among those
  that \<open>run\<close> reaches.
\<close>

datatype Action = Previous | Next | Today Date

fun dispatch :: "TimelineTask list \<Rightarrow> Action \<Rightarrow> Date option \<Rightarrow> Date option" where
  "dispatch tasks Previous rangeStart = handlePrevious tasks rangeStart"
| "dispatch tasks Next rangeStart = handleNext tasks rangeStart"
| "dispatch tasks (Today today) rangeStart = handleToday today"

definition run :: "TimelineTask list \<Rightarrow> Action list \<Rightarrow> Date option" where
  "run tasks actions = fold (dispatch tasks) actions None"


section \<open>Example inputs\<close>

text \<open>
  Monday 2024-01-01 00:00 is day 19723 of the time line. \<open>taskA\<close> runs from
  2024-01-01 to 2024-01-03.
\<close>

definition taskA :: TimelineTask where
  "taskA = \<lparr>taskId = ''1'', taskName = ''A'',
            startDate = 1704067200000, endDate = 1704240000000\<rparr>"

text \<open>
  \<open>taskC\<close> runs from Wednesday 2024-01-10 to Thursday 2024-01-25. For \<open>twoTasks\<close> the
  navigable bounds are Monday 2024-01-01 and Monday 2024-01-22.
\<close>

definition taskC :: TimelineTask where
  "taskC = \<lparr>taskId = ''3'', taskName = ''C'',
            startDate = 1704844800000, endDate = 1706140800000\<rparr>"

definition twoTasks :: "TimelineTask list" where
  "twoTasks = [taskA, taskC]"

text \<open>Monday 2024-01-08 00:00, the instant at which the week of \<open>taskA\<close> ends.\<close>

definition mondayAfter :: Date where
  "mondayAfter = 1704672000000"

text \<open>Wednesday 2023-12-20 12:00, a clock reading in the week of Monday 2023-12-18.\<close>

definition wednesdayBefore :: Date where
  "wednesdayBefore = 1703073600000"

text \<open>
  The clamp of the specification, to compare the code with: the value itself when it lies
  in the interval from \<open>lo\<close> to \<open>hi\<close>, and otherwise the end of the interval on its side.
\<close>

definition clampInto :: "'a::linorder \<Rightarrow> 'a \<Rightarrow> 'a \<Rightarrow> 'a" where
  "clampInto x lo hi = (if x < lo then lo else if hi < x then hi else x)"

text \<open>An action other than \<open>Today\<close>.\<close>

definition previousOrNext :: "Action \<Rightarrow> bool" where
  "previousOrNext a = (case a of Previous \<Rightarrow> True | Next \<Rightarrow> True | Today d \<Rightarrow> False)"

text \<open>A stored anchor is week-aligned when it is the start of its own week.\<close>

definition weekAligned :: "Date option \<Rightarrow> bool" where
  "weekAligned rangeStart =
     (case rangeStart of None \<Rightarrow> True | Some a \<Rightarrow> startOfWeek a 1 = a)"

text \<open>A stored anchor within the navigable bounds.\<close>

definition withinBounds :: "TimelineTask list \<Rightarrow> Date option \<Rightarrow> bool" where
  "withinBounds tasks rangeStart =
     (case rangeStart of None \<Rightarrow> True
      | Some a \<Rightarrow> minWeekStart tasks \<le> a \<and> a \<le> maxWeekStart tasks)"


section \<open>Facts about the date functions\<close>

lemma msPerDay_pos: "0 < msPerDay"
  by (simp add: msPerDay_def)

lemma div_shift_days: "(d + k * msPerDay) div msPerDay = d div msPerDay + k"
  using msPerDay_pos by simp

lemma div_whole_days: "(k * msPerDay) div msPerDay = k"
  using msPerDay_pos by simp

lemma startOfWeek_monday:
  "startOfWeek d 1 = ((d div msPerDay + 3) div 7 * 7 - 3) * msPerDay"
proof -
  define n where "n = d div msPerDay"
  have diff: "(if (n + 4) mod 7 < 1 then 7 else 0) + (n + 4) mod 7 - 1 = (n + 3) mod 7"
    by presburger
  have sh: "(d - k * msPerDay) div msPerDay = n - k" for k
    using div_shift_days [of d "- k"] by (simp add: n_def)
  have "(n + 3) div 7 * 7 - 3 = n - (n + 3) mod 7" by presburger
  then show ?thesis
    unfolding startOfWeek_def getDay_def Let_def n_def[symmetric] diff sh by simp
qed

lemma startOfWeek_idem: "startOfWeek (startOfWeek d 1) 1 = startOfWeek d 1"
proof -
  have "((m * 7 - 3 + 3) div 7 * 7 - 3) = m * 7 - (3::int)" for m by simp
  then show ?thesis
    unfolding startOfWeek_monday div_whole_days by simp
qed

lemma startOfWeek_mono: "a \<le> b \<Longrightarrow> startOfWeek a 1 \<le> startOfWeek b 1"
proof -
  assume "a \<le> b"
  then have "a div msPerDay \<le> b div msPerDay"
    using msPerDay_pos by (simp add: zdiv_mono1)
  then have "(a div msPerDay + 3) div 7 \<le> (b div msPerDay + 3) div 7"
    by (simp add: zdiv_mono1)
  then show ?thesis
    unfolding startOfWeek_monday using msPerDay_pos by simp
qed

lemma startOfWeek_addDays: "startOfWeek (addDays d (7 * k)) 1 = addDays (startOfWeek d 1) (7 * k)"
proof -
  define n where "n = d div msPerDay"
  have e: "(n + 7 * k + 3) div 7 = (n + 3) div 7 + k"
    by presburger
  have "startOfWeek (addDays d (7 * k)) 1 = ((n + 7 * k + 3) div 7 * 7 - 3) * msPerDay"
    unfolding startOfWeek_monday addDays_def div_shift_days n_def by (rule refl)
  also have "\<dots> = (((n + 3) div 7 + k) * 7 - 3) * msPerDay"
    by (simp only: e)
  also have "\<dots> = addDays (startOfWeek d 1) (7 * k)"
    unfolding startOfWeek_monday addDays_def n_def by (simp add: algebra_simps)
  finally show ?thesis .
qed

lemma getDay_startOfWeek: "getDay (startOfWeek d 1) = 1"
proof -
  have "(m * 7 - 3 + 4) mod 7 = (1::int)" for m by presburger
  then show ?thesis
    unfolding startOfWeek_monday getDay_def div_whole_days by simp
qed

lemma div_days_split:
  assumes "0 \<le> x" "x < msPerDay" "0 \<le> y" "y < msPerDay"
  shows "(c * msPerDay + x - y) div msPerDay = (if x < y then c - 1 else c)"
proof (cases "x < y")
  case True
  have eq: "c * msPerDay + x - y = (x - y + msPerDay) + (c - 1) * msPerDay"
    by (simp add: algebra_simps)
  have "(c * msPerDay + x - y) div msPerDay = (x - y + msPerDay) div msPerDay + (c - 1)"
    unfolding eq by (rule div_shift_days)
  moreover have "(x - y + msPerDay) div msPerDay = 0"
    using assms True by simp
  ultimately show ?thesis
    using True by simp
next
  case False
  have eq: "c * msPerDay + x - y = (x - y) + c * msPerDay"
    by simp
  have "(c * msPerDay + x - y) div msPerDay = (x - y) div msPerDay + c"
    unfolding eq by (rule div_shift_days)
  moreover have "(x - y) div msPerDay = 0"
    using assms False by simp
  ultimately show ?thesis
    using False by simp
qed

lemma differenceInDays_later:
  assumes "r < l"
  shows "differenceInDays l r = (l - r) div msPerDay"
proof -
  define a x b y where "a = l div msPerDay" and "x = l mod msPerDay"
    and "b = r div msPerDay" and "y = r mod msPerDay"
  have l: "l = a * msPerDay + x" and r: "r = b * msPerDay + y"
    by (simp_all add: a_def x_def b_def y_def)
  have xr: "0 \<le> x" "x < msPerDay" and yr: "0 \<le> y" "y < msPerDay"
    using msPerDay_pos by (simp_all add: x_def y_def)
  have ab: "b \<le> a"
    unfolding a_def b_def using assms msPerDay_pos by (simp add: zdiv_mono1)
  have moved: "addDays l (- (a - b)) = b * msPerDay + x"
    unfolding addDays_def l by (simp add: algebra_simps)
  have rhs: "(l - r) div msPerDay = (if x < y then a - b - 1 else a - b)"
    using div_days_split [OF xr yr, of "a - b"] unfolding l r by (simp add: algebra_simps)
  have cmp: "compareLocalAsc l r = 1"
    using assms by (simp add: compareLocalAsc_def)
  have cal: "\<bar>differenceInCalendarDays l r\<bar> = a - b"
    using ab by (simp add: differenceInCalendarDays_def a_def b_def)
  show ?thesis
    unfolding differenceInDays_def Let_def cmp cal rhs
    using moved by (simp add: compareLocalAsc_def r)
qed

lemma differenceInDays_earlier:
  assumes "l < r"
  shows "differenceInDays l r = - ((r - l) div msPerDay)"
proof -
  define a x b y where "a = l div msPerDay" and "x = l mod msPerDay"
    and "b = r div msPerDay" and "y = r mod msPerDay"
  have l: "l = a * msPerDay + x" and r: "r = b * msPerDay + y"
    by (simp_all add: a_def x_def b_def y_def)
  have xr: "0 \<le> x" "x < msPerDay" and yr: "0 \<le> y" "y < msPerDay"
    using msPerDay_pos by (simp_all add: x_def y_def)
  have ab: "a \<le> b"
    unfolding a_def b_def using assms msPerDay_pos by (simp add: zdiv_mono1)
  have moved: "addDays l (- (- 1 * (b - a))) = b * msPerDay + x"
    unfolding addDays_def l by (simp add: algebra_simps)
  have rhs: "(r - l) div msPerDay = (if y < x then b - a - 1 else b - a)"
    using div_days_split [OF yr xr, of "b - a"] unfolding l r by (simp add: algebra_simps)
  have cmp: "compareLocalAsc l r = - 1"
    using assms by (simp add: compareLocalAsc_def)
  have cal: "\<bar>differenceInCalendarDays l r\<bar> = b - a"
    using ab by (simp add: differenceInCalendarDays_def a_def b_def)
  show ?thesis
    unfolding differenceInDays_def Let_def cmp cal rhs
    using moved by (simp add: compareLocalAsc_def r)
qed

lemma differenceInDays_same: "differenceInDays d d = 0"
  by (simp add: differenceInDays_def compareLocalAsc_def)

lemma differenceInDays_trunc:
  "differenceInDays l r = (if r \<le> l then (l - r) div msPerDay else - ((r - l) div msPerDay))"
  using differenceInDays_later [of r l] differenceInDays_earlier [of l r]
    differenceInDays_same [of l]
  by (cases "r < l"; cases "l < r") auto


section \<open>Facts about the derived values and the handlers\<close>

lemma clamp_cases: "lo \<le> hi \<Longrightarrow> clamp x lo hi = clampInto x lo hi"
  by (auto simp: clamp_def clampInto_def)

lemma fold_min_le_init:
  "fold (\<lambda>t acc. if f t < acc then f t else acc) ts (a::int) \<le> a"
proof (induction ts arbitrary: a)
  case Nil
  show ?case by simp
next
  case (Cons t ts)
  show ?case using Cons.IH [of "if f t < a then f t else a"] by (simp split: if_splits)
qed

lemma fold_min_le_elem:
  "t \<in> set ts \<Longrightarrow> fold (\<lambda>t acc. if f t < acc then f t else acc) ts (a::int) \<le> f t"
proof (induction ts arbitrary: a)
  case Nil
  then show ?case by simp
next
  case (Cons u us)
  show ?case
  proof (cases "t = u")
    case True
    have "fold (\<lambda>t acc. if f t < acc then f t else acc) us (if f u < a then f u else a)
            \<le> (if f u < a then f u else a)"
      by (rule fold_min_le_init)
    then show ?thesis using True by (simp split: if_splits)
  next
    case False
    then have "t \<in> set us" using Cons.prems by simp
    then show ?thesis using Cons.IH by simp
  qed
qed

lemma fold_max_ge_init:
  "a \<le> fold (\<lambda>t acc. if f t > acc then f t else acc) ts (a::int)"
proof (induction ts arbitrary: a)
  case Nil
  show ?case by simp
next
  case (Cons t ts)
  show ?case using Cons.IH [of "if f t > a then f t else a"] by (simp split: if_splits)
qed

lemma fold_max_ge_elem:
  "t \<in> set ts \<Longrightarrow> f t \<le> fold (\<lambda>t acc. if f t > acc then f t else acc) ts (a::int)"
proof (induction ts arbitrary: a)
  case Nil
  then show ?case by simp
next
  case (Cons u us)
  show ?case
  proof (cases "t = u")
    case True
    have "(if f u > a then f u else a)
            \<le> fold (\<lambda>t acc. if f t > acc then f t else acc) us (if f u > a then f u else a)"
      by (rule fold_max_ge_init)
    then show ?thesis using True by (simp split: if_splits)
  next
    case False
    then have "t \<in> set us" using Cons.prems by simp
    then show ?thesis using Cons.IH by simp
  qed
qed

lemma minDate_le: "t \<in> set tasks \<Longrightarrow> minDate tasks \<le> startDate t"
  unfolding minDate_def by (rule fold_min_le_elem)

lemma maxDate_ge: "t \<in> set tasks \<Longrightarrow> endDate t \<le> maxDate tasks"
  unfolding maxDate_def by (rule fold_max_ge_elem)

lemma bounds_ordered:
  assumes "t \<in> set tasks" "startDate t \<le> endDate t"
  shows "minWeekStart tasks \<le> maxWeekStart tasks"
proof -
  have "minDate tasks \<le> maxDate tasks"
    using minDate_le [OF assms(1)] maxDate_ge [OF assms(1)] assms(2) by simp
  then show ?thesis
    unfolding minWeekStart_def maxWeekStart_def by (rule startOfWeek_mono)
qed

lemma days_list:
  "days tasks rangeStart =
     map (\<lambda>k. addDays (currentWeekStart tasks rangeStart) k) [0, 1, 2, 3, 4, 5, 6]"
proof -
  have "[0..<7] = [0, 1, 2, 3, 4, 5, 6::nat]"
    by (simp add: upt_rec)
  then show ?thesis
    by (simp add: days_def currentWeekStart_def Let_def)
qed

lemma days_length: "length (days tasks rangeStart) = 7"
  by (simp add: days_def)

lemma days_first: "days tasks rangeStart ! 0 = currentWeekStart tasks rangeStart"
  by (simp add: days_list addDays_def)

lemma days_last: "days tasks rangeStart ! (length (days tasks rangeStart) - 1)
    = addDays (currentWeekStart tasks rangeStart) 6"
proof -
  have "length (days tasks rangeStart) - 1 = 6"
    by (simp add: days_length)
  then show ?thesis
    by (simp add: days_list)
qed

lemma rangeStartDate_eq: "rangeStartDate tasks rangeStart = currentWeekStart tasks rangeStart"
  by (simp add: rangeStartDate_def days_first)

lemma rangeEndDate_eq: "rangeEndDate tasks rangeStart = addDays (currentWeekStart tasks rangeStart) 7"
  unfolding rangeEndDate_def Let_def days_last by (simp add: addDays_def)

lemma minWeekStart_aligned: "startOfWeek (minWeekStart tasks) 1 = minWeekStart tasks"
  unfolding minWeekStart_def by (rule startOfWeek_idem)

lemma maxWeekStart_aligned: "startOfWeek (maxWeekStart tasks) 1 = maxWeekStart tasks"
  unfolding maxWeekStart_def by (rule startOfWeek_idem)

lemma startOfWeek_plus_week:
  "startOfWeek a 1 = a \<Longrightarrow> startOfWeek (addDays a 7) 1 = addDays a 7"
  using startOfWeek_addDays [of a 1] by simp

lemma startOfWeek_minus_week:
  "startOfWeek a 1 = a \<Longrightarrow> startOfWeek (addDays a (- 7)) 1 = addDays a (- 7)"
  using startOfWeek_addDays [of a "- 1"] by simp

lemma clampToRange_aligned:
  "startOfWeek d 1 = d \<Longrightarrow> startOfWeek (clampToRange tasks d) 1 = clampToRange tasks d"
  by (simp add: clampToRange_def minWeekStart_aligned maxWeekStart_aligned)

lemma effective_aligned:
  "weekAligned rangeStart \<Longrightarrow>
   startOfWeek (effectiveRangeStart tasks rangeStart) 1 = effectiveRangeStart tasks rangeStart"
  by (cases rangeStart) (simp_all add: weekAligned_def effectiveRangeStart_def minWeekStart_aligned)

lemma dispatch_aligned: "weekAligned rangeStart \<Longrightarrow> weekAligned (dispatch tasks a rangeStart)"
proof (cases a)
  case Previous
  assume "weekAligned rangeStart"
  then have "startOfWeek (effectiveRangeStart tasks rangeStart) 1 = effectiveRangeStart tasks rangeStart"
    by (rule effective_aligned)
  then show ?thesis
    using Previous
    by (simp add: handlePrevious_def Let_def weekAligned_def effectiveRangeStart_def
        clampToRange_aligned startOfWeek_minus_week)
next
  case Next
  assume "weekAligned rangeStart"
  then have "startOfWeek (effectiveRangeStart tasks rangeStart) 1 = effectiveRangeStart tasks rangeStart"
    by (rule effective_aligned)
  then show ?thesis
    using Next
    by (simp add: handleNext_def Let_def weekAligned_def effectiveRangeStart_def
        clampToRange_aligned startOfWeek_plus_week)
next
  case (Today d)
  then show ?thesis
    by (simp add: handleToday_def weekAligned_def startOfWeek_idem)
qed

lemma fold_dispatch_aligned:
  "weekAligned rangeStart \<Longrightarrow> weekAligned (fold (dispatch tasks) actions rangeStart)"
  by (induction actions arbitrary: rangeStart) (simp_all add: dispatch_aligned)

lemma run_aligned: "weekAligned (run tasks actions)"
  unfolding run_def by (rule fold_dispatch_aligned) (simp add: weekAligned_def)

lemma clampToRange_within:
  "minWeekStart tasks \<le> maxWeekStart tasks \<Longrightarrow>
   minWeekStart tasks \<le> clampToRange tasks d \<and> clampToRange tasks d \<le> maxWeekStart tasks"
  by (simp add: clampToRange_def)

lemma dispatch_within:
  "minWeekStart tasks \<le> maxWeekStart tasks \<Longrightarrow> previousOrNext a \<Longrightarrow>
   withinBounds tasks (dispatch tasks a rangeStart)"
  by (cases a)
    (simp_all add: previousOrNext_def withinBounds_def handlePrevious_def handleNext_def Let_def
      clampToRange_within)

lemma fold_dispatch_within:
  "minWeekStart tasks \<le> maxWeekStart tasks \<Longrightarrow> list_all previousOrNext actions \<Longrightarrow>
   withinBounds tasks rangeStart \<Longrightarrow> withinBounds tasks (fold (dispatch tasks) actions rangeStart)"
  by (induction actions arbitrary: rangeStart) (simp_all add: dispatch_within)

lemma run_within:
  "minWeekStart tasks \<le> maxWeekStart tasks \<Longrightarrow> list_all previousOrNext actions \<Longrightarrow>
   withinBounds tasks (run tasks actions)"
  unfolding run_def by (rule fold_dispatch_within) (simp_all add: withinBounds_def)

lemma currentWeekStart_within:
  assumes "minWeekStart tasks \<le> maxWeekStart tasks" "withinBounds tasks rangeStart"
  shows "minWeekStart tasks \<le> currentWeekStart tasks rangeStart
       \<and> currentWeekStart tasks rangeStart \<le> maxWeekStart tasks"
proof -
  have e: "minWeekStart tasks \<le> effectiveRangeStart tasks rangeStart
         \<and> effectiveRangeStart tasks rangeStart \<le> maxWeekStart tasks"
    using assms by (cases rangeStart) (simp_all add: withinBounds_def effectiveRangeStart_def)
  show ?thesis
    unfolding currentWeekStart_def
    using startOfWeek_mono [of "minWeekStart tasks" "effectiveRangeStart tasks rangeStart"]
      startOfWeek_mono [of "effectiveRangeStart tasks rangeStart" "maxWeekStart tasks"] e
    by (simp add: minWeekStart_aligned maxWeekStart_aligned)
qed

lemma taskA_minWeekStart: "minWeekStart [taskA] = 1704067200000"
  by (simp add: minWeekStart_def minDate_def taskA_def startOfWeek_def getDay_def msPerDay_def)

lemma wednesdayBefore_week: "startOfWeek wednesdayBefore 1 = 1702857600000"
  by (simp add: wednesdayBefore_def startOfWeek_def getDay_def msPerDay_def)

lemma taskA_week: "startOfWeek 1704067200000 1 = 1704067200000"
  by (simp add: startOfWeek_def getDay_def msPerDay_def)

lemma render_nonempty:
  "tasks \<noteq> [] \<Longrightarrow>
   TimelineGantt tasks rangeStart today =
     Timeline
       \<lparr>dayColumns = days tasks rangeStart,
        previousDisabled = (\<not> canGoPrevious tasks rangeStart),
        nextDisabled = (\<not> canGoNext tasks rangeStart),
        markerLeft = (of_int (todayIndex tasks rangeStart today) / 7) * 100,
        emptyWeekOverlay = (\<not> hasTasksInRange tasks rangeStart),
        taskRows =
          map (\<lambda>t. \<lparr>rowName = taskName t,
                     rowLeft = leftPct (taskBar (days tasks rangeStart) t),
                     rowWidth = widthPct (taskBar (days tasks rangeStart) t)\<rparr>) tasks\<rparr>"
  by (simp add: TimelineGantt_def Let_def days_length)

lemma currentWeekStart_midnight: "currentWeekStart tasks rangeStart mod msPerDay = 0"
  by (simp add: currentWeekStart_def startOfWeek_monday)

lemma currentWeekStart_monday: "getDay (currentWeekStart tasks rangeStart) = 1"
  by (simp add: currentWeekStart_def getDay_startOfWeek)

lemma differenceInDays_nonpos: "l \<le> r \<Longrightarrow> differenceInDays l r \<le> 0"
proof -
  assume "l \<le> r"
  then have "0 \<le> (r - l) div msPerDay"
    using msPerDay_pos by (simp add: pos_imp_zdiv_nonneg_iff)
  then show ?thesis
    using \<open>l \<le> r\<close> by (simp add: differenceInDays_trunc)
qed

lemma taskBar_eq:
  "taskBar (days tasks rangeStart) t =
     (let day0 = currentWeekStart tasks rangeStart;
          left = clamp (of_int (differenceInDays (startDate t) day0) / 7 * 100) 0 100;
          right = clamp (of_int (differenceInDays (endDate t) day0) / 7 * 100) 0 100
      in \<lparr>leftPct = left, rightPct = right, minWidthPct = 100 / 7,
          widthPct = clamp (right - left + 100 / 7) (100 / 7) 100\<rparr>)"
  by (simp add: taskBar_def Let_def days_length days_first)

lemma hasTasksInRange_eq:
  "hasTasksInRange tasks rangeStart =
     (\<exists>t\<in>set tasks. startDate t < addDays (currentWeekStart tasks rangeStart) 7
                   \<and> currentWeekStart tasks rangeStart \<le> endDate t)"
  by (simp add: hasTasksInRange_def list_ex_iff rangeStartDate_eq rangeEndDate_eq)

lemma days_end: "addDays (days tasks rangeStart ! 6) 1 = addDays (currentWeekStart tasks rangeStart) 7"
  by (simp add: days_list addDays_def)

lemma interval_meets_window:
  fixes s e a b :: int
  assumes "s \<le> e" "a < b"
  shows "({s..e} \<inter> {a..<b} \<noteq> {}) = (s < b \<and> a \<le> e)"
proof
  assume "{s..e} \<inter> {a..<b} \<noteq> {}"
  then obtain x where "s \<le> x" "x \<le> e" "a \<le> x" "x < b" by auto
  then show "s < b \<and> a \<le> e" by simp
next
  assume h: "s < b \<and> a \<le> e"
  then have "max s a \<in> {s..e} \<inter> {a..<b}" using assms by auto
  then show "{s..e} \<inter> {a..<b} \<noteq> {}" by blast
qed

lemma interval_misses_window:
  fixes s e a b :: int
  assumes "s \<le> e" "a < b"
  shows "({s..e} \<inter> {a..<b} = {}) = (\<not> (s < b \<and> a \<le> e))"
  using interval_meets_window [OF assms] by blast

lemma floor_day_le: "d div msPerDay * msPerDay \<le> d"
  using msPerDay_pos by (metis div_mult_mod_eq le_add_same_cancel1 pos_mod_sign)

lemma whole_days_below:
  assumes "0 \<le> x" "x < k * msPerDay"
  shows "0 \<le> x div msPerDay \<and> x div msPerDay < k"
proof -
  have "x div msPerDay * msPerDay < k * msPerDay"
    using floor_day_le [of x] assms(2) by simp
  then have "x div msPerDay < k"
    using msPerDay_pos by simp
  moreover have "0 \<le> x div msPerDay"
    using assms(1) msPerDay_pos by (simp add: pos_imp_zdiv_nonneg_iff)
  ultimately show ?thesis by simp
qed

lemma todayInRange_eq:
  "todayInRange tasks rangeStart today =
     (currentWeekStart tasks rangeStart \<le> today
      \<and> today \<le> addDays (currentWeekStart tasks rangeStart) 7)"
proof -
  have "currentWeekStart tasks rangeStart \<le> addDays (currentWeekStart tasks rangeStart) 7"
    using msPerDay_pos by (simp add: addDays_def)
  then show ?thesis
    unfolding todayInRange_def Let_def days_last days_first isWithinInterval_def
    by (simp add: addDays_def add.commute)
qed

lemma todayIndex_eq:
  "todayIndex tasks rangeStart today =
     (if currentWeekStart tasks rangeStart \<le> today
         \<and> today \<le> addDays (currentWeekStart tasks rangeStart) 7
      then clamp (differenceInDays today (currentWeekStart tasks rangeStart)) 0 6
      else 3)"
  unfolding todayIndex_def Let_def todayInRange_eq days_first
  by (simp add: days_length)

lemma taskA_day0: "days [taskA] None ! 0 = 1704067200000"
  by (simp add: days_first currentWeekStart_def effectiveRangeStart_def taskA_minWeekStart
      taskA_week)

lemma twoTasks_minWeekStart: "minWeekStart twoTasks = 1704067200000"
  by (simp add: twoTasks_def minWeekStart_def minDate_def taskA_def taskC_def startOfWeek_def
      getDay_def msPerDay_def)

lemma twoTasks_maxWeekStart: "maxWeekStart twoTasks = 1705881600000"
  by (simp add: twoTasks_def maxWeekStart_def maxDate_def taskA_def taskC_def startOfWeek_def
      getDay_def msPerDay_def)

lemma twoTasks_next: "handleNext twoTasks None = Some 1704672000000"
  by (simp add: handleNext_def clampToRange_def twoTasks_minWeekStart twoTasks_maxWeekStart
      addDays_def msPerDay_def)

lemma twoTasks_next_next: "handleNext twoTasks (Some 1704672000000) = Some 1705276800000"
  by (simp add: handleNext_def clampToRange_def twoTasks_minWeekStart twoTasks_maxWeekStart
      addDays_def msPerDay_def)

lemma twoTasks_run: "run twoTasks [Next, Next] = Some 1705276800000"
  by (simp add: run_def twoTasks_next twoTasks_next_next)

lemma pct_nonpos: "k \<le> 0 \<Longrightarrow> clamp (of_int k / 7 * 100) 0 (100::rat) = 0"
proof -
  assume "k \<le> 0"
  then have "(of_int k :: rat) \<le> 0" by simp
  then have "(of_int k :: rat) / 7 * 100 \<le> 0"
    by (simp add: divide_le_0_iff mult_le_0_iff)
  then show ?thesis by (simp add: clamp_def)
qed

lemma pct_lower: "0 \<le> clamp x 0 (100::rat)"
  by (simp add: clamp_def)

lemma width_lower: "m \<le> clamp x m (100::rat)"
  by (simp add: clamp_def)

lemma width_collapsed: "0 \<le> l \<Longrightarrow> clamp (0 - l + 100 / 7) (100 / 7) (100::rat) = 100 / 7"
  by (simp add: clamp_def)

lemma taskBar_left:
  "leftPct (taskBar (days tasks rangeStart) t) =
     clamp (of_int (differenceInDays (startDate t) (currentWeekStart tasks rangeStart)) / 7 * 100)
       0 100"
  unfolding taskBar_eq Let_def by (rule Bar.select_convs)

lemma taskBar_right:
  "rightPct (taskBar (days tasks rangeStart) t) =
     clamp (of_int (differenceInDays (endDate t) (currentWeekStart tasks rangeStart)) / 7 * 100)
       0 100"
  unfolding taskBar_eq Let_def by (rule Bar.select_convs)

lemma taskBar_minWidth: "minWidthPct (taskBar (days tasks rangeStart) t) = 100 / 7"
  unfolding taskBar_eq Let_def by (rule Bar.select_convs)

lemma taskBar_width:
  "widthPct (taskBar (days tasks rangeStart) t) =
     clamp (rightPct (taskBar (days tasks rangeStart) t)
            - leftPct (taskBar (days tasks rangeStart) t) + 100 / 7) (100 / 7) 100"
  unfolding taskBar_left taskBar_right unfolding taskBar_eq Let_def by (rule Bar.select_convs)

section \<open>The claims of the specification\<close>

text \<open>
  Claim C9. For the empty task list the component returns the "No tasks scheduled"
  placeholder, whatever the anchor and the clock are, and produces no day grid, no
  navigation buttons and no task bars; the placeholder is returned for the empty list only.
\<close>

theorem empty_list_placeholder:
  "(TimelineGantt tasks rangeStart today = NoTasksScheduled) = (tasks = [])"
  by (simp add: TimelineGantt_def Let_def)

text \<open>
  Claim C8. For every non-empty task list and every anchor, the render shows the day
  columns \<open>days\<close>, which are exactly 7 consecutive calendar days: the first is the
  week-start of the effective anchor (the stored anchor if there is one, otherwise
  \<open>minWeekStart\<close>), a Monday at midnight, and each of the others is one day after the one
  before it.
\<close>

theorem visible_days:
  assumes "tasks \<noteq> []"
  shows "(\<exists>g. TimelineGantt tasks rangeStart today = Timeline g
            \<and> dayColumns g = days tasks rangeStart)
       \<and> days tasks rangeStart =
           (let start = startOfWeek (case rangeStart of Some a \<Rightarrow> a | None \<Rightarrow> minWeekStart tasks) 1
            in [start, start + msPerDay, start + 2 * msPerDay, start + 3 * msPerDay,
                start + 4 * msPerDay, start + 5 * msPerDay, start + 6 * msPerDay])
       \<and> length (days tasks rangeStart) = 7
       \<and> getDay (days tasks rangeStart ! 0) = 1
       \<and> days tasks rangeStart ! 0 mod msPerDay = 0"
proof -
  have "\<exists>g. TimelineGantt tasks rangeStart today = Timeline g
            \<and> dayColumns g = days tasks rangeStart"
    using render_nonempty [OF assms, of rangeStart today] by simp
  moreover have "days tasks rangeStart =
           (let start = startOfWeek (case rangeStart of Some a \<Rightarrow> a | None \<Rightarrow> minWeekStart tasks) 1
            in [start, start + msPerDay, start + 2 * msPerDay, start + 3 * msPerDay,
                start + 4 * msPerDay, start + 5 * msPerDay, start + 6 * msPerDay])"
    by (simp add: days_list currentWeekStart_def effectiveRangeStart_def addDays_def Let_def)
  moreover have "getDay (days tasks rangeStart ! 0) = 1"
    by (simp add: days_first currentWeekStart_monday)
  moreover have "days tasks rangeStart ! 0 mod msPerDay = 0"
    by (simp add: days_first currentWeekStart_midnight)
  moreover have "length (days tasks rangeStart) = 7"
    by (rule days_length)
  ultimately show ?thesis
    by blast
qed

theorem visible_days_witness:
  "[taskA] \<noteq> []
   \<and> days [taskA] None =
       [1704067200000, 1704153600000, 1704240000000, 1704326400000,
        1704412800000, 1704499200000, 1704585600000]
   \<and> days [taskA] (Some wednesdayBefore) =
       [1702857600000, 1702944000000, 1703030400000, 1703116800000,
        1703203200000, 1703289600000, 1703376000000]"
proof -
  have ne: "[taskA] \<noteq> []" by simp
  show ?thesis
    using visible_days [OF ne, of None 0] visible_days [OF ne, of "Some wednesdayBefore" 0]
    by (simp add: taskA_minWeekStart taskA_week wednesdayBefore_week msPerDay_def Let_def)
qed

text \<open>
  Claim C4. In every state the Today action stores the week-start of the clock reading, a
  Monday, as the new anchor. The task list plays no part in the result: nothing is clamped.
\<close>

theorem today_not_clamped:
  "dispatch tasks (Today today) rangeStart = Some (startOfWeek today 1)
   \<and> getDay (startOfWeek today 1) = 1"
  by (simp add: handleToday_def getDay_startOfWeek)

text \<open>
  With \<open>taskA\<close> the navigable bounds are both Monday 2024-01-01; pressing Today on
  Wednesday 2023-12-20 stores Monday 2023-12-18, which is before \<open>minWeekStart\<close>.
\<close>

theorem today_not_clamped_witness:
  "dispatch [taskA] (Today wednesdayBefore) None = Some 1702857600000
   \<and> 1702857600000 < minWeekStart [taskA]"
  using today_not_clamped [of "[taskA]" wednesdayBefore None]
  by (simp add: taskA_minWeekStart wednesdayBefore_week)

text \<open>
  Claim C2. For every task and every visible window, which has \<open>N = 7\<close> days and starts at
  \<open>day0\<close>, with \<open>startOffset\<close> and \<open>endOffset\<close> the whole-day differences of the task's
  start and end date from \<open>day0\<close>: \<open>leftPct\<close> is \<open>startOffset / N * 100\<close> clamped into 0 to
  100, \<open>rightPct\<close> is \<open>endOffset / N * 100\<close> clamped into 0 to 100, \<open>minWidthPct\<close> is
  \<open>100 / N\<close>, and \<open>widthPct\<close> is \<open>rightPct - leftPct + minWidthPct\<close> clamped into
  \<open>minWidthPct\<close> to 100. The rendered row of each task takes its \<open>left\<close> and \<open>width\<close> from
  these values.
\<close>

theorem bar_layout:
  assumes "tasks \<noteq> []"
  shows "taskBar (days tasks rangeStart) t =
     (let day0 = days tasks rangeStart ! 0;
          startOffset = differenceInDays (startDate t) day0;
          endOffset = differenceInDays (endDate t) day0;
          left = clampInto (of_int startOffset / 7 * 100) 0 100;
          right = clampInto (of_int endOffset / 7 * 100) 0 100;
          minWidth = 100 / 7
      in \<lparr>leftPct = left, rightPct = right, minWidthPct = minWidth,
          widthPct = clampInto (right - left + minWidth) minWidth 100\<rparr>)
   \<and> (\<exists>g. TimelineGantt tasks rangeStart today = Timeline g
          \<and> taskRows g =
              map (\<lambda>t. \<lparr>rowName = taskName t,
                         rowLeft = leftPct (taskBar (days tasks rangeStart) t),
                         rowWidth = widthPct (taskBar (days tasks rangeStart) t)\<rparr>) tasks)"
proof -
  have c1: "clamp x 0 100 = clampInto x 0 100" for x :: rat
    by (rule clamp_cases) simp
  have c2: "clamp x (100 / 7) 100 = clampInto x (100 / 7) 100" for x :: rat
    by (rule clamp_cases) simp
  have "\<exists>g. TimelineGantt tasks rangeStart today = Timeline g
          \<and> taskRows g =
              map (\<lambda>t. \<lparr>rowName = taskName t,
                         rowLeft = leftPct (taskBar (days tasks rangeStart) t),
                         rowWidth = widthPct (taskBar (days tasks rangeStart) t)\<rparr>) tasks"
    using render_nonempty [OF assms, of rangeStart today] by simp
  then show ?thesis
    by (simp add: taskBar_eq days_first Let_def c1 c2)
qed

theorem bar_layout_witness:
  "[taskA] \<noteq> []
   \<and> taskBar (days [taskA] None) taskA =
       \<lparr>leftPct = 0, rightPct = 200 / 7, minWidthPct = 100 / 7, widthPct = 300 / 7\<rparr>"
proof -
  have ne: "[taskA] \<noteq> []" by simp
  have "days [taskA] None ! 0 = 1704067200000"
    by (simp add: days_first currentWeekStart_def effectiveRangeStart_def taskA_minWeekStart
        taskA_week)
  moreover have "differenceInDays (startDate taskA) 1704067200000 = 0"
    by (simp add: taskA_def differenceInDays_same)
  moreover have "differenceInDays (endDate taskA) 1704067200000 = 2"
    by (simp add: taskA_def differenceInDays_trunc msPerDay_def)
  ultimately show ?thesis
    using bar_layout [OF ne, of None taskA 0]
    by (simp add: Let_def clampInto_def)
qed

text \<open>
  Claim C5. For a non-empty task list the overlay "no tasks in this week" is shown if and
  only if every task fails the test \<open>startDate < day6 + 1\<close> and \<open>endDate \<ge> day0\<close>. For tasks
  whose start date is not after their end date this says that no task's interval from
  \<open>startDate\<close> to \<open>endDate\<close> meets the half-open window from \<open>day0\<close> up to, and without,
  \<open>day6 + 1\<close>. With or without the overlay, the render has the seven day columns and one
  row per task.
\<close>

theorem empty_week_overlay:
  assumes "tasks \<noteq> []"
  shows "\<exists>g. TimelineGantt tasks rangeStart today = Timeline g
     \<and> emptyWeekOverlay g =
         (\<forall>t\<in>set tasks. \<not> (startDate t < addDays (days tasks rangeStart ! 6) 1
                               \<and> endDate t \<ge> days tasks rangeStart ! 0))
     \<and> ((\<forall>t\<in>set tasks. startDate t \<le> endDate t) \<longrightarrow>
         emptyWeekOverlay g =
           (\<forall>t\<in>set tasks. {startDate t..endDate t}
               \<inter> {days tasks rangeStart ! 0..<addDays (days tasks rangeStart ! 6) 1} = {}))
     \<and> dayColumns g = days tasks rangeStart
     \<and> length (dayColumns g) = 7
     \<and> length (taskRows g) = length tasks"
proof -
  let ?day0 = "currentWeekStart tasks rangeStart"
  have test: "(\<not> hasTasksInRange tasks rangeStart) =
      (\<forall>t\<in>set tasks. \<not> (startDate t < addDays ?day0 7 \<and> endDate t \<ge> ?day0))"
    by (simp add: hasTasksInRange_eq)
  have meets: "(\<forall>t\<in>set tasks. startDate t \<le> endDate t) \<Longrightarrow>
      (\<forall>t\<in>set tasks. \<not> (startDate t < addDays ?day0 7 \<and> endDate t \<ge> ?day0)) =
      (\<forall>t\<in>set tasks. {startDate t..endDate t} \<inter> {?day0..<addDays ?day0 7} = {})"
  proof -
    assume wf: "\<forall>t\<in>set tasks. startDate t \<le> endDate t"
    have lt: "?day0 < addDays ?day0 7"
      using msPerDay_pos by (simp add: addDays_def)
    have pt: "({startDate t..endDate t} \<inter> {?day0..<addDays ?day0 7} = {}) =
        (\<not> (startDate t < addDays ?day0 7 \<and> endDate t \<ge> ?day0))" if "t \<in> set tasks" for t
    proof (rule interval_misses_window)
      show "startDate t \<le> endDate t" using wf that by blast
      show "?day0 < addDays ?day0 7" by (rule lt)
    qed
    show ?thesis
      using pt by blast
  qed
  show ?thesis
    unfolding render_nonempty [OF assms] days_end days_first
    using test meets by (simp add: days_length)
qed

theorem empty_week_overlay_witness:
  "[taskA] \<noteq> []
   \<and> startDate taskA \<le> endDate taskA
   \<and> (\<exists>g. TimelineGantt [taskA] (Some 1702857600000) 0 = Timeline g
         \<and> emptyWeekOverlay g \<and> length (dayColumns g) = 7 \<and> length (taskRows g) = 1)
   \<and> (\<exists>g. TimelineGantt [taskA] None 0 = Timeline g \<and> \<not> emptyWeekOverlay g)"
proof -
  have ne: "[taskA] \<noteq> []" by simp
  have d0: "days [taskA] None ! 0 = 1704067200000"
    by (simp add: days_first currentWeekStart_def effectiveRangeStart_def taskA_minWeekStart
        taskA_week)
  have d6: "addDays (days [taskA] None ! 6) 1 = 1704672000000"
    unfolding days_end
    by (simp add: currentWeekStart_def effectiveRangeStart_def taskA_minWeekStart
        taskA_week addDays_def msPerDay_def)
  have w: "startOfWeek 1702857600000 1 = 1702857600000"
    using wednesdayBefore_week startOfWeek_idem [of wednesdayBefore] by simp
  have e0: "days [taskA] (Some 1702857600000) ! 0 = 1702857600000"
    by (simp add: days_first currentWeekStart_def effectiveRangeStart_def w)
  have e6: "addDays (days [taskA] (Some 1702857600000) ! 6) 1 = 1703462400000"
    unfolding days_end
    by (simp add: currentWeekStart_def effectiveRangeStart_def w addDays_def msPerDay_def)
  show ?thesis
    using empty_week_overlay [OF ne, of "Some 1702857600000" 0]
      empty_week_overlay [OF ne, of None 0]
    unfolding d0 d6 e0 e6
    by (auto simp: taskA_def)
qed

text \<open>
  Claim C6, as amended. For every non-empty task list, the day index of the today marker is
  the whole-day offset of the current date from \<open>day0\<close>, clamped into 0 to 6, when the current
  date lies between \<open>day0\<close> and \<open>day0\<close> plus 7 days, both ends included, and the midpoint
  index 3 otherwise. On the seven visible days proper (from \<open>day0\<close> up to, and without,
  \<open>day0\<close> plus 7 days) the index is the offset itself. The marker is drawn at
  \<open>index / 7 * 100\<close> percent.
\<close>

theorem today_marker:
  assumes "tasks \<noteq> []"
  shows "todayIndex tasks rangeStart today =
           (if days tasks rangeStart ! 0 \<le> today
               \<and> today \<le> addDays (days tasks rangeStart ! 0) 7
            then clampInto (differenceInDays today (days tasks rangeStart ! 0)) 0 6
            else 3)
       \<and> (days tasks rangeStart ! 0 \<le> today \<and> today < addDays (days tasks rangeStart ! 0) 7
            \<longrightarrow> todayIndex tasks rangeStart today
                  = differenceInDays today (days tasks rangeStart ! 0))
       \<and> (\<exists>g. TimelineGantt tasks rangeStart today = Timeline g
              \<and> markerLeft g = of_int (todayIndex tasks rangeStart today) / 7 * 100)"
proof -
  let ?day0 = "currentWeekStart tasks rangeStart"
  have c: "clamp x 0 6 = clampInto x 0 6" for x :: int
    by (rule clamp_cases) simp
  have a: "todayIndex tasks rangeStart today =
           (if ?day0 \<le> today \<and> today \<le> addDays ?day0 7
            then clampInto (differenceInDays today ?day0) 0 6 else 3)"
    by (simp add: todayIndex_eq c)
  have b: "todayIndex tasks rangeStart today = differenceInDays today ?day0"
    if "?day0 \<le> today \<and> today < addDays ?day0 7"
  proof -
    have "0 \<le> today - ?day0" "today - ?day0 < 7 * msPerDay"
      using that by (simp_all add: addDays_def)
    then have "0 \<le> (today - ?day0) div msPerDay \<and> (today - ?day0) div msPerDay < 7"
      by (rule whole_days_below)
    then have "0 \<le> differenceInDays today ?day0 \<and> differenceInDays today ?day0 \<le> 6"
      using that by (simp add: differenceInDays_trunc)
    then show ?thesis
      using that by (simp add: a clampInto_def)
  qed
  have g: "\<exists>g. TimelineGantt tasks rangeStart today = Timeline g
              \<and> markerLeft g = of_int (todayIndex tasks rangeStart today) / 7 * 100"
    using render_nonempty [OF assms, of rangeStart today] by simp
  show ?thesis
    unfolding days_first using a b g by blast
qed

theorem today_marker_witness:
  "[taskA] \<noteq> []
   \<and> days [taskA] None ! 0 \<le> 1704326400000
   \<and> 1704326400000 < addDays (days [taskA] None ! 0) 7
   \<and> todayIndex [taskA] None 1704326400000 = 3
   \<and> todayIndex [taskA] None 1704240000001 = 2
   \<and> todayIndex [taskA] None wednesdayBefore = 3"
proof -
  have ne: "[taskA] \<noteq> []" by simp
  have d: "differenceInDays 1704326400000 1704067200000 = 3"
      "differenceInDays 1704240000001 1704067200000 = 2"
    by (simp_all add: differenceInDays_trunc msPerDay_def)
  show ?thesis
    using today_marker [OF ne, of None 1704326400000 ] today_marker [OF ne, of None 1704240000001]
      today_marker [OF ne, of None wednesdayBefore]
    unfolding taskA_day0
    by (simp add: d addDays_def msPerDay_def clampInto_def wednesdayBefore_def)
qed

text \<open>
  Claim C6 as stated fails at the instant that ends the window: with \<open>taskA\<close> and no stored
  anchor the window is the week of Monday 2024-01-01; at Monday 2024-01-08 00:00 the clock is
  outside the seven visible days, and the index is 6, not 3.
\<close>

theorem today_marker_counterexample:
  "\<not> (days [taskA] None ! 0 \<le> mondayAfter \<and> mondayAfter < addDays (days [taskA] None ! 0) 7)
   \<and> todayIndex [taskA] None mondayAfter = 6
   \<and> todayIndex [taskA] None mondayAfter \<noteq> 3"
proof -
  have "differenceInDays mondayAfter 1704067200000 = 7"
    by (simp add: differenceInDays_trunc msPerDay_def mondayAfter_def)
  moreover have "currentWeekStart [taskA] None = 1704067200000"
    using taskA_day0 by (simp add: days_first)
  ultimately have "todayIndex [taskA] None mondayAfter = 6"
    by (simp add: todayIndex_eq clamp_def addDays_def msPerDay_def mondayAfter_def)
  then show ?thesis
    unfolding taskA_day0 by (simp add: addDays_def msPerDay_def mondayAfter_def)
qed

text \<open>
  Claim C7. For every task, whether or not its interval lies in the visible window,
  \<open>widthPct \<ge> minWidthPct = 100 / 7 > 0\<close>: every bar has a width that is not zero. In
  particular, for a task whose interval lies entirely before the window, that is a task of
  the data model (\<open>startDate \<le> endDate\<close>) with \<open>endDate < day0\<close>, \<open>leftPct = 0\<close> and
  \<open>widthPct = minWidthPct\<close>. The width is \<open>minWidthPct\<close> for every task that ends before
  the window, whatever its start date.
\<close>

theorem bar_never_empty:
  assumes "tasks \<noteq> []"
  shows "minWidthPct (taskBar (days tasks rangeStart) t) = 100 / 7
       \<and> 0 < minWidthPct (taskBar (days tasks rangeStart) t)
       \<and> minWidthPct (taskBar (days tasks rangeStart) t)
           \<le> widthPct (taskBar (days tasks rangeStart) t)
       \<and> (endDate t < days tasks rangeStart ! 0 \<longrightarrow>
            widthPct (taskBar (days tasks rangeStart) t)
              = minWidthPct (taskBar (days tasks rangeStart) t))
       \<and> (startDate t \<le> endDate t \<and> endDate t < days tasks rangeStart ! 0 \<longrightarrow>
            leftPct (taskBar (days tasks rangeStart) t) = 0
          \<and> widthPct (taskBar (days tasks rangeStart) t)
              = minWidthPct (taskBar (days tasks rangeStart) t))"
proof -
  let ?day0 = "currentWeekStart tasks rangeStart"
  let ?b = "taskBar (days tasks rangeStart) t"
  have m: "minWidthPct ?b = 100 / 7"
    by (rule taskBar_minWidth)
  have w: "minWidthPct ?b \<le> widthPct ?b"
    unfolding m taskBar_width by (rule width_lower)
  have before: "widthPct ?b = minWidthPct ?b" if "endDate t < ?day0"
  proof -
    have "differenceInDays (endDate t) ?day0 \<le> 0"
      using that by (simp add: differenceInDays_nonpos)
    then have r: "rightPct ?b = 0"
      unfolding taskBar_right by (rule pct_nonpos)
    have l: "0 \<le> leftPct ?b"
      unfolding taskBar_left by (rule pct_lower)
    have "widthPct ?b = clamp (0 - leftPct ?b + 100 / 7) (100 / 7) 100"
      using taskBar_width [of tasks rangeStart t] unfolding r .
    then show ?thesis
      unfolding m using width_collapsed [OF l] by simp
  qed
  have left: "leftPct ?b = 0" if "startDate t \<le> endDate t \<and> endDate t < ?day0"
  proof -
    have "differenceInDays (startDate t) ?day0 \<le> 0"
      using that by (simp add: differenceInDays_nonpos)
    then show ?thesis
      unfolding taskBar_left by (rule pct_nonpos)
  qed
  show ?thesis
    unfolding days_first using m w before left by simp
qed

theorem bar_never_empty_witness:
  "[taskA] \<noteq> []
   \<and> startDate taskA \<le> endDate taskA
   \<and> endDate taskA < days [taskA] (Some 1705276800000) ! 0
   \<and> leftPct (taskBar (days [taskA] (Some 1705276800000)) taskA) = 0
   \<and> widthPct (taskBar (days [taskA] (Some 1705276800000)) taskA) = 100 / 7
   \<and> minWidthPct (taskBar (days [taskA] (Some 1705276800000)) taskA) = 100 / 7"
proof -
  have ne: "[taskA] \<noteq> []" by simp
  have w: "startOfWeek 1705276800000 1 = 1705276800000"
    by (simp add: startOfWeek_def getDay_def msPerDay_def)
  have d: "days [taskA] (Some 1705276800000) ! 0 = 1705276800000"
    by (simp add: days_first currentWeekStart_def effectiveRangeStart_def w)
  have t: "startDate taskA \<le> endDate taskA" "endDate taskA < 1705276800000"
    by (simp_all add: taskA_def)
  show ?thesis
    using ne t bar_never_empty [OF ne, of "Some 1705276800000" taskA]
    unfolding d by simp
qed

text \<open>
  Claim C3. For every non-empty list of tasks of the data model (each with
  \<open>startDate \<le> endDate\<close>) and every anchor, null standing for \<open>minWeekStart\<close>: Previous
  stores the anchor minus 7 days clamped into the interval from \<open>minWeekStart\<close> to
  \<open>maxWeekStart\<close>, Next stores the anchor plus 7 days clamped into the same interval, and so
  the stored anchor after either action lies in that interval.
\<close>

theorem previous_next_clamped:
  assumes "tasks \<noteq> []" and "\<forall>t\<in>set tasks. startDate t \<le> endDate t"
  shows "handlePrevious tasks rangeStart =
           Some (clampInto (addDays (effectiveRangeStart tasks rangeStart) (- 7))
                   (minWeekStart tasks) (maxWeekStart tasks))
       \<and> handleNext tasks rangeStart =
           Some (clampInto (addDays (effectiveRangeStart tasks rangeStart) 7)
                   (minWeekStart tasks) (maxWeekStart tasks))
       \<and> (\<exists>a. handlePrevious tasks rangeStart = Some a
              \<and> minWeekStart tasks \<le> a \<and> a \<le> maxWeekStart tasks)
       \<and> (\<exists>a. handleNext tasks rangeStart = Some a
              \<and> minWeekStart tasks \<le> a \<and> a \<le> maxWeekStart tasks)"
proof -
  have p: "handlePrevious tasks rangeStart =
      Some (clampToRange tasks (addDays (effectiveRangeStart tasks rangeStart) (- 7)))"
    by (simp add: handlePrevious_def effectiveRangeStart_def Let_def)
  have n: "handleNext tasks rangeStart =
      Some (clampToRange tasks (addDays (effectiveRangeStart tasks rangeStart) 7))"
    by (simp add: handleNext_def effectiveRangeStart_def Let_def)
  have c: "clampToRange tasks d = clampInto d (minWeekStart tasks) (maxWeekStart tasks)" for d
    by (simp add: clampToRange_def clampInto_def)
  have "hd tasks \<in> set tasks"
    using assms(1) by simp
  moreover have "startDate (hd tasks) \<le> endDate (hd tasks)"
    using assms by simp
  ultimately have le: "minWeekStart tasks \<le> maxWeekStart tasks"
    by (rule bounds_ordered)
  show ?thesis
    unfolding p n using clampToRange_within [OF le] by (simp add: c)
qed

theorem previous_next_clamped_witness:
  "twoTasks \<noteq> []
   \<and> startDate taskA \<le> endDate taskA \<and> startDate taskC \<le> endDate taskC
   \<and> minWeekStart twoTasks \<le> maxWeekStart twoTasks
   \<and> handleNext twoTasks (Some 1704672000000) = Some 1705276800000
   \<and> handleNext twoTasks (Some 1705881600000) = Some 1705881600000
   \<and> handlePrevious twoTasks None = Some 1704067200000"
proof -
  have ne: "twoTasks \<noteq> []" by (simp add: twoTasks_def)
  have a: "startDate taskA \<le> endDate taskA" and c: "startDate taskC \<le> endDate taskC"
    by (simp_all add: taskA_def taskC_def)
  then have wf: "\<forall>t\<in>set twoTasks. startDate t \<le> endDate t"
    by (simp add: twoTasks_def)
  show ?thesis
    using ne a c previous_next_clamped [OF ne wf, of "Some 1704672000000"]
      previous_next_clamped [OF ne wf, of "Some 1705881600000"]
      previous_next_clamped [OF ne wf, of None]
    by (simp add: twoTasks_minWeekStart twoTasks_maxWeekStart effectiveRangeStart_def
        clampInto_def addDays_def msPerDay_def)
qed

text \<open>
  Claim C1, as amended. In every state reached from the initial one by Previous, Next and
  Today, with a non-empty task list, \<open>canGoPrevious\<close> is false if and only if the current
  week-start is at or before \<open>minWeekStart\<close>, and \<open>canGoNext\<close> is false if and only if it is
  at or after \<open>maxWeekStart\<close>. In the states reached by Previous and Next alone, when
  \<open>minWeekStart \<le> maxWeekStart\<close>, "at or before" and "at or after" are equalities.
\<close>

theorem navigation_flags:
  assumes "tasks \<noteq> []"
  shows "(\<not> canGoPrevious tasks (run tasks actions)) =
           (currentWeekStart tasks (run tasks actions) \<le> minWeekStart tasks)
       \<and> (\<not> canGoNext tasks (run tasks actions)) =
           (maxWeekStart tasks \<le> currentWeekStart tasks (run tasks actions))
       \<and> (list_all previousOrNext actions \<and> minWeekStart tasks \<le> maxWeekStart tasks \<longrightarrow>
            (\<not> canGoPrevious tasks (run tasks actions)) =
              (currentWeekStart tasks (run tasks actions) = minWeekStart tasks)
          \<and> (\<not> canGoNext tasks (run tasks actions)) =
              (currentWeekStart tasks (run tasks actions) = maxWeekStart tasks))"
proof -
  have "minWeekStart tasks \<le> currentWeekStart tasks (run tasks actions)
      \<and> currentWeekStart tasks (run tasks actions) \<le> maxWeekStart tasks"
    if "list_all previousOrNext actions" "minWeekStart tasks \<le> maxWeekStart tasks"
    using currentWeekStart_within [OF that(2) run_within [OF that(2) that(1)]] .
  then show ?thesis
    by (auto simp: canGoPrevious_def canGoNext_def)
qed

theorem navigation_flags_witness:
  "twoTasks \<noteq> [] \<and> list_all previousOrNext [Next, Next]
   \<and> minWeekStart twoTasks \<le> maxWeekStart twoTasks
   \<and> currentWeekStart twoTasks (run twoTasks [Next, Next]) = 1705276800000
   \<and> canGoPrevious twoTasks (run twoTasks [Next, Next])
   \<and> canGoNext twoTasks (run twoTasks [Next, Next])
   \<and> \<not> canGoPrevious twoTasks (run twoTasks [])
   \<and> currentWeekStart twoTasks (run twoTasks []) = minWeekStart twoTasks"
proof -
  have ne: "twoTasks \<noteq> []" by (simp add: twoTasks_def)
  have w: "startOfWeek 1705276800000 1 = 1705276800000"
    by (simp add: startOfWeek_def getDay_def msPerDay_def)
  have c: "currentWeekStart twoTasks (Some 1705276800000) = 1705276800000"
    by (simp add: currentWeekStart_def effectiveRangeStart_def w)
  have c0: "currentWeekStart twoTasks None = 1704067200000"
    by (simp add: currentWeekStart_def effectiveRangeStart_def twoTasks_minWeekStart taskA_week)
  have r0: "run twoTasks [] = None"
    by (simp add: run_def)
  show ?thesis
    using ne navigation_flags [OF ne, of "[Next, Next]"] navigation_flags [OF ne, of "[]"]
    unfolding twoTasks_run r0 c c0
    by (simp add: previousOrNext_def twoTasks_minWeekStart twoTasks_maxWeekStart)
qed

text \<open>
  Claim C1 as stated fails after Today: with \<open>taskA\<close>, pressing Today on Wednesday
  2023-12-20 makes Monday 2023-12-18 the current week-start; \<open>canGoPrevious\<close> is false and
  the current week-start is not \<open>minWeekStart\<close>, Monday 2024-01-01.
\<close>

theorem navigation_flags_counterexample:
  "\<not> canGoPrevious [taskA] (run [taskA] [Today wednesdayBefore])
   \<and> currentWeekStart [taskA] (run [taskA] [Today wednesdayBefore]) \<noteq> minWeekStart [taskA]"
proof -
  have r: "run [taskA] [Today wednesdayBefore] = Some 1702857600000"
    by (simp add: run_def handleToday_def wednesdayBefore_week)
  have w: "startOfWeek 1702857600000 1 = 1702857600000"
    using wednesdayBefore_week startOfWeek_idem [of wednesdayBefore] by simp
  show ?thesis
    unfolding r
    by (simp add: canGoPrevious_def currentWeekStart_def effectiveRangeStart_def w
        taskA_minWeekStart)
qed

text \<open>
  Claim C10. In every state reached from the initial one by Previous, Next and Today, a
  stored anchor is week-aligned: it is the start of its own week. So the effective anchor is
  its own week-start, and the displayed window begins on the effective anchor, which is the
  stored anchor when there is one.
\<close>

theorem anchor_week_aligned:
  assumes "tasks \<noteq> []"
  shows "(\<forall>a. run tasks actions = Some a \<longrightarrow> startOfWeek a 1 = a)
       \<and> startOfWeek (effectiveRangeStart tasks (run tasks actions)) 1
           = effectiveRangeStart tasks (run tasks actions)
       \<and> days tasks (run tasks actions) ! 0 = effectiveRangeStart tasks (run tasks actions)
       \<and> (\<forall>a. run tasks actions = Some a \<longrightarrow> days tasks (run tasks actions) ! 0 = a)"
proof -
  have al: "weekAligned (run tasks actions)"
    by (rule run_aligned)
  have e: "startOfWeek (effectiveRangeStart tasks (run tasks actions)) 1
           = effectiveRangeStart tasks (run tasks actions)"
    using al by (rule effective_aligned)
  have d: "days tasks (run tasks actions) ! 0 = effectiveRangeStart tasks (run tasks actions)"
    by (simp add: days_first currentWeekStart_def e)
  have s: "startOfWeek a 1 = a" if "run tasks actions = Some a" for a
    using al that by (simp add: weekAligned_def)
  have f: "days tasks (run tasks actions) ! 0 = a" if "run tasks actions = Some a" for a
    using d that by (simp add: effectiveRangeStart_def)
  show ?thesis
    using e d s f by blast
qed

theorem anchor_week_aligned_witness:
  "twoTasks \<noteq> []
   \<and> run twoTasks [Next, Next] = Some 1705276800000
   \<and> startOfWeek 1705276800000 1 = 1705276800000
   \<and> days twoTasks (run twoTasks [Next, Next]) ! 0 = 1705276800000"
proof -
  have ne: "twoTasks \<noteq> []" by (simp add: twoTasks_def)
  show ?thesis
    using ne anchor_week_aligned [OF ne, of "[Next, Next]"]
    by (simp add: twoTasks_run)
qed

end
